theory Spec2Isabelle
  imports Main "HOL-Library.Sublist"
begin

section \<open>JavaScript string primitives used by the campaign engine\<close>

text \<open>
  Strings are character lists. The functions below only tell apart the ASCII digits,
  the plus sign, the comma, line feed, carriage return and white space; every other
  character is treated alike.
\<close>

definition is_digit :: "char \<Rightarrow> bool" where
  \<comment> \<open>the regular-expression class \<^verbatim>\<open>\d\<close>\<close>
  "is_digit c = (c \<in> set ''0123456789'')"

definition is_ws :: "char \<Rightarrow> bool" where
  \<comment> \<open>what \<^verbatim>\<open>String.prototype.trim\<close> strips: tab, LF, VT, FF, CR, space, NBSP\<close>
  "is_ws c = (c \<in> set [CHR 0x09, CHR 0x0A, CHR 0x0B, CHR 0x0C, CHR 0x0D, CHR 0x20, CHR 0xA0])"

definition keep_digits_plus :: "string \<Rightarrow> string" where
  \<comment> \<open>\<^verbatim>\<open>s.replace(/[^\d+]/g, '')\<close>\<close>
  "keep_digits_plus s = filter (\<lambda>c. is_digit c \<or> c = CHR ''+'') s"

definition only_digits :: "string \<Rightarrow> string" where
  \<comment> \<open>\<^verbatim>\<open>s.replace(/\D/g, '')\<close>, also written \<^verbatim>\<open>s.replace(/[^\d]/g, '')\<close>\<close>
  "only_digits s = filter is_digit s"

definition startsWith :: "string \<Rightarrow> string \<Rightarrow> bool" where
  "startsWith s p = (take (length p) s = p)"

fun str_includes :: "string \<Rightarrow> string \<Rightarrow> bool" where
  \<comment> \<open>\<^verbatim>\<open>s.includes(t)\<close>: \<open>t\<close> occurs in \<open>s\<close> as a contiguous run\<close>
  "str_includes [] t = (t = [])"
| "str_includes (c # s) t = (take (length t) (c # s) = t \<or> str_includes s t)"

definition slice_last :: "nat \<Rightarrow> string \<Rightarrow> string" where
  \<comment> \<open>\<^verbatim>\<open>s.slice(-n)\<close>: the last \<open>n\<close> characters, the whole string when it is shorter\<close>
  "slice_last n s = drop (length s - n) s"

definition trim :: "string \<Rightarrow> string" where
  "trim s = rev (dropWhile is_ws (rev (dropWhile is_ws s)))"

fun split_on :: "char \<Rightarrow> string \<Rightarrow> string list" where
  \<comment> \<open>\<^verbatim>\<open>s.split(sep)\<close> for a one-character separator\<close>
  "split_on sep [] = [[]]"
| "split_on sep (c # cs) =
     (if c = sep then [] # split_on sep cs
      else (case split_on sep cs of l # ls \<Rightarrow> (c # l) # ls | [] \<Rightarrow> [[c]]))"

fun split_lines :: "string \<Rightarrow> string list" where
  \<comment> \<open>\<^verbatim>\<open>s.split(/\r?\n/)\<close>: a line ends at LF or at CR LF\<close>
  "split_lines [] = [[]]"
| "split_lines [c] = (if c = CHR 0x0A then [[], []] else [[c]])"
| "split_lines (c # d # cs) =
     (if c = CHR 0x0A then [] # split_lines (d # cs)
      else if c = CHR 0x0D \<and> d = CHR 0x0A then [] # split_lines cs
      else (case split_lines (d # cs) of l # ls \<Rightarrow> (c # l) # ls | [] \<Rightarrow> [[c]]))"

section \<open>Phone normalization and contact-list parsing\<close>

definition normalizePhoneNumber :: "string \<Rightarrow> string" where
  \<comment> \<open>the argument is \<^verbatim>\<open>String(phone || '')\<close>; the length check only logs\<close>
  "normalizePhoneNumber phone =
     (let digits = keep_digits_plus phone in
      if \<not> startsWith digits ''+'' then
        (if startsWith digits ''55'' \<and> length digits \<ge> 12 then ''+'' @ digits
         else ''+55'' @ digits)
      else digits)"

record entry =
  number :: string
  name :: string

definition parse_line :: "string \<Rightarrow> entry option" where
  \<comment> \<open>the body of the loop over lines; \<open>None\<close> is the \<^verbatim>\<open>continue\<close>\<close>
  "parse_line line =
     (let parts = map trim (split_on (CHR '','') line);
          num = keep_digits_plus (case parts of [] \<Rightarrow> [] | p # _ \<Rightarrow> p);
          nm = (case parts of _ # p # _ \<Rightarrow> p | _ \<Rightarrow> [])
      in if num = [] then None
         else Some \<lparr>number = (if startsWith num ''+'' then num else ''+'' @ num), name = nm\<rparr>)"

definition parsed_entries :: "string \<Rightarrow> entry list" where
  \<comment> \<open>the array \<^verbatim>\<open>entries\<close> before deduplication\<close>
  "parsed_entries raw =
     List.map_filter parse_line (filter (\<lambda>l. l \<noteq> []) (map trim (split_lines raw)))"

fun Map_set :: "'k \<Rightarrow> 'v \<Rightarrow> ('k \<times> 'v) list \<Rightarrow> ('k \<times> 'v) list" where
  \<comment> \<open>\<^verbatim>\<open>Map.prototype.set\<close> on an insertion-ordered map: a key already present keeps
      its place and takes the new value\<close>
  "Map_set k v [] = [(k, v)]"
| "Map_set k v ((k', v') # m) = (if k' = k then (k, v) # m else (k', v') # Map_set k v m)"

definition dedup_entries :: "entry list \<Rightarrow> (string \<times> entry) list" where
  \<comment> \<open>\<^verbatim>\<open>for (const e of entries) map.set(e.number, e)\<close>\<close>
  "dedup_entries es = foldl (\<lambda>m e. Map_set (number e) e m) [] es"

definition parseCampaignLines :: "string \<Rightarrow> entry list" where
  \<comment> \<open>\<^verbatim>\<open>Array.from(map.values())\<close>\<close>
  "parseCampaignLines raw = map snd (dedup_entries (parsed_entries raw))"

definition campaign_lines :: "string \<Rightarrow> string list" where
  \<comment> \<open>the array \<^verbatim>\<open>lines\<close>: the trimmed, non-empty lines of the text\<close>
  "campaign_lines raw = filter (\<lambda>l. l \<noteq> []) (map trim (split_lines raw))"

definition number_field :: "string \<Rightarrow> string" where
  \<comment> \<open>the constant \<^verbatim>\<open>number\<close> of a line: \<^verbatim>\<open>(parts[0] || '').replace(/[^\d+]/g, '')\<close>\<close>
  "number_field line =
     keep_digits_plus (case map trim (split_on (CHR '','') line) of [] \<Rightarrow> [] | p # _ \<Rightarrow> p)"

definition plain_number :: "string \<Rightarrow> bool" where
  \<comment> \<open>the data model's wording of the invariant: only digits and an optional leading plus\<close>
  "plain_number s =
     (case s of [] \<Rightarrow> True | c # cs \<Rightarrow> (is_digit c \<or> c = CHR ''+'') \<and> list_all is_digit cs)"

definition sample_contacts :: string where
  \<comment> \<open>three lines, the third repeating the number of the first\<close>
  "sample_contacts = ''+5511999990001,Ana'' @ [CHR 0x0A] @ ''5511999990002'' @ [CHR 0x0D, CHR 0x0A]
          @ ''+55 11 99999-0001, Bia''"

section \<open>Pacing policy: the hourly rate limit\<close>

text \<open>
  The module-level array \<^verbatim>\<open>messageTimestamps\<close> is passed in and returned; the clock
  \<^verbatim>\<open>Date.now()\<close> is the argument \<open>now\<close>, in milliseconds.
\<close>

definition maxMessagesPerHour :: nat where
  \<comment> \<open>\<^verbatim>\<open>STEALTH_CONFIG.maxMessagesPerHour\<close>\<close>
  "maxMessagesPerHour = 30"

fun shift_old :: "int \<Rightarrow> int list \<Rightarrow> int list" where
  \<comment> \<open>\<^verbatim>\<open>while (ts.length && ts[0] < oneHourAgo) ts.shift()\<close>\<close>
  "shift_old oneHourAgo [] = []"
| "shift_old oneHourAgo (t # ts) =
     (if t < oneHourAgo then shift_old oneHourAgo ts else t # ts)"

definition checkRateLimit :: "int \<Rightarrow> int list \<Rightarrow> bool \<times> int list" where
  \<comment> \<open>the answer, and the array as the call leaves it\<close>
  "checkRateLimit now messageTimestamps =
     (let oneHourAgo = now - 3600000;
          kept = shift_old oneHourAgo messageTimestamps
      in (length kept < maxMessagesPerHour, kept))"

definition recordMessageSent :: "int \<Rightarrow> int list \<Rightarrow> int list" where
  \<comment> \<open>\<^verbatim>\<open>messageTimestamps.push(Date.now())\<close>\<close>
  "recordMessageSent now messageTimestamps = messageTimestamps @ [now]"

definition record_all :: "int list \<Rightarrow> int list \<Rightarrow> int list" where
  \<comment> \<open>one \<open>recordMessageSent\<close> call per time of \<open>sent\<close>, in order\<close>
  "record_all sent messageTimestamps = foldl (\<lambda>w t. recordMessageSent t w) messageTimestamps sent"

section \<open>Bounded DOM polling\<close>

text \<open>
  Every \<^verbatim>\<open>throw new Error(...)\<close> of the automation functions is a value of \<open>error\<close>.
  The page is an oracle: a function from the number of the poll (from 0) to what the
  query of that poll finds. A polling loop returns what it found, how many polls it made
  and for how many milliseconds it asked \<^verbatim>\<open>sleep\<close> to wait.
\<close>

datatype error =
    InvalidNumber          \<comment> \<open>\<^verbatim>\<open>Numero invalido.\<close>\<close>
  | SearchBoxNotFound      \<comment> \<open>\<^verbatim>\<open>Caixa de busca nao encontrada.\<close>\<close>
  | NoSearchResult         \<comment> \<open>\<^verbatim>\<open>Nenhum resultado na busca.\<close>\<close>
  | ChatOpenFailed         \<comment> \<open>\<^verbatim>\<open>Chat nao abriu (composer nao encontrado ou chat incorreto).\<close>\<close>
  | ComposerNotFound       \<comment> \<open>\<^verbatim>\<open>Composer nao encontrado apos abrir chat\<close>\<close>
  | EmptyMessage           \<comment> \<open>\<^verbatim>\<open>Mensagem vazia (e sem midia).\<close>\<close>
  | MediaNotLoaded         \<comment> \<open>\<^verbatim>\<open>Midia nao carregada.\<close>\<close>
  | AttachButtonNotFound   \<comment> \<open>\<^verbatim>\<open>Botao de anexo nao encontrado.\<close>\<close>
  | FileInputNotFound      \<comment> \<open>\<^verbatim>\<open>Input de arquivo nao encontrado.\<close>\<close>
  | PreviewTimeout         \<comment> \<open>\<^verbatim>\<open>Preview nao apareceu ou botao enviar nao encontrado.\<close>\<close>
  | InsertionFailed        \<comment> \<open>\<^verbatim>\<open>Nao consegui inserir texto no composer\<close>\<close>
  | RateLimitExceeded      \<comment> \<open>\<^verbatim>\<open>Rate limit atingido.\<close>\<close>
  | SendButtonNotFound     \<comment> \<open>\<^verbatim>\<open>Nao encontrei o botao ENVIAR nem o composer\<close>\<close>

record 'a wait =
  result :: 'a
  polls :: nat
  slept_ms :: nat

function findElementWithRetry_from ::
  "(nat \<Rightarrow> 'el option) \<Rightarrow> nat \<Rightarrow> nat \<Rightarrow> nat \<Rightarrow> nat \<Rightarrow> 'el option wait" where
  "findElementWithRetry_from findElement maxAttempts delayMs i slept =
     (if i < maxAttempts then
        (case findElement i of
           Some el \<Rightarrow> \<lparr>result = Some el, polls = Suc i, slept_ms = slept\<rparr>
         | None \<Rightarrow> findElementWithRetry_from findElement maxAttempts delayMs (Suc i) (slept + delayMs))
      else \<lparr>result = None, polls = i, slept_ms = slept\<rparr>)"
  by pat_completeness auto
termination
  by (relation "measure (\<lambda>(f, maxAttempts, d, i, s). maxAttempts - i)") auto

declare findElementWithRetry_from.simps [simp del]

definition findElementWithRetry :: "(nat \<Rightarrow> 'el option) \<Rightarrow> nat \<Rightarrow> nat \<Rightarrow> 'el option wait" where
  \<comment> \<open>the defaults of the source are \<open>maxAttempts = 10\<close> and \<open>delayMs = 300\<close>\<close>
  "findElementWithRetry findElement maxAttempts delayMs =
     findElementWithRetry_from findElement maxAttempts delayMs 0 0"

function wait_file_input_from :: "(nat \<Rightarrow> bool) \<Rightarrow> nat \<Rightarrow> nat \<Rightarrow> (error + unit) wait" where
  \<comment> \<open>step 2 of \<^verbatim>\<open>attachMediaAndSend\<close>: five looks for the file input, 300 ms apart\<close>
  "wait_file_input_from input attempt slept =
     (if attempt < 5 then
        (if input attempt then \<lparr>result = Inr (), polls = Suc attempt, slept_ms = slept\<rparr>
         else wait_file_input_from input (Suc attempt) (slept + 300))
      else \<lparr>result = Inl FileInputNotFound, polls = attempt, slept_ms = slept\<rparr>)"
  by pat_completeness auto
termination
  by (relation "measure (\<lambda>(f, attempt, s). 5 - attempt)") auto

declare wait_file_input_from.simps [simp del]

definition preview_maxAttempts :: nat where
  \<comment> \<open>\<^verbatim>\<open>const maxAttempts = 60; // 18 segundos\<close>\<close>
  "preview_maxAttempts = 60"

function wait_preview_from :: "(nat \<Rightarrow> bool) \<Rightarrow> nat \<Rightarrow> nat \<Rightarrow> (error + unit) wait" where
  \<comment> \<open>step 4 of \<^verbatim>\<open>attachMediaAndSend\<close>: sleep, then look for the dialog's send button\<close>
  "wait_preview_from sendBtn i slept =
     (if i < preview_maxAttempts then
        (if sendBtn i then \<lparr>result = Inr (), polls = Suc i, slept_ms = slept + 300\<rparr>
         else wait_preview_from sendBtn (Suc i) (slept + 300))
      else \<lparr>result = Inl PreviewTimeout, polls = i, slept_ms = slept\<rparr>)"
  by pat_completeness auto
termination
  by (relation "measure (\<lambda>(f, i, s). preview_maxAttempts - i)") auto

declare wait_preview_from.simps [simp del]

section \<open>Chat navigator\<close>

definition MAX_COMPOSER_CHECK_ATTEMPTS :: nat where
  "MAX_COMPOSER_CHECK_ATTEMPTS = 20"

definition COMPOSER_CHECK_DELAY_MS :: nat where
  "COMPOSER_CHECK_DELAY_MS = 300"

definition VALIDATION_SKIP_THRESHOLD :: nat where
  "VALIDATION_SKIP_THRESHOLD = 15"

definition PHONE_SUFFIX_MATCH_LENGTH :: nat where
  "PHONE_SUFFIX_MATCH_LENGTH = 8"

definition row_matches :: "string \<Rightarrow> string \<Rightarrow> bool" where
  \<comment> \<open>the filter on the search result rows, on a row's \<^verbatim>\<open>innerText\<close>\<close>
  "row_matches digits innerText =
     (let text = only_digits innerText
      in str_includes text (slice_last 6 digits) \<or> str_includes digits (slice_last 6 text))"

definition isCorrectChat :: "string \<Rightarrow> string \<Rightarrow> bool" where
  "isCorrectChat digits currentTitle =
     (let titleDigits = only_digits currentTitle
      in str_includes titleDigits (slice_last PHONE_SUFFIX_MATCH_LENGTH digits)
         \<or> str_includes digits (slice_last PHONE_SUFFIX_MATCH_LENGTH titleDigits)
         \<or> titleDigits = digits)"

record header =
  composer :: bool           \<comment> \<open>\<^verbatim>\<open>findComposer()\<close> found an element\<close>
  chatTitle :: string        \<comment> \<open>what \<^verbatim>\<open>getChatTitle()\<close> returns\<close>

function chat_open_loop :: "(nat \<Rightarrow> header) \<Rightarrow> string \<Rightarrow> nat \<Rightarrow> nat \<Rightarrow> (error + unit) wait" where
  \<comment> \<open>the validation loop that ends \<^verbatim>\<open>openChatBySearch\<close>\<close>
  "chat_open_loop page digits i slept =
     (if i < MAX_COMPOSER_CHECK_ATTEMPTS then
        (if composer (page i) then
           (if isCorrectChat digits (chatTitle (page i)) \<or> i > VALIDATION_SKIP_THRESHOLD
            then \<lparr>result = Inr (), polls = Suc i, slept_ms = slept + COMPOSER_CHECK_DELAY_MS\<rparr>
            else chat_open_loop page digits (Suc i) (slept + COMPOSER_CHECK_DELAY_MS))
         else chat_open_loop page digits (Suc i) (slept + COMPOSER_CHECK_DELAY_MS))
      else \<lparr>result = Inl ChatOpenFailed, polls = i, slept_ms = slept\<rparr>)"
  by pat_completeness auto
termination
  by (relation "measure (\<lambda>(d, g, i, s). MAX_COMPOSER_CHECK_ATTEMPTS - i)") auto

declare chat_open_loop.simps [simp del]

definition openChatBySearch ::
  "string \<Rightarrow> bool \<Rightarrow> string list \<Rightarrow> (nat \<Rightarrow> header) \<Rightarrow> error + unit" where
  \<comment> \<open>\<open>searchBox\<close>: the search box is found; \<open>rows\<close>: the texts of the result rows after
      typing; \<open>page\<close>: the conversation pane at each poll after the click\<close>
  "openChatBySearch query searchBox rows page =
     (let q = keep_digits_plus query;
          digits = only_digits q
      in if digits = [] \<or> length digits < 8 then Inl InvalidNumber
         else if \<not> searchBox then Inl SearchBoxNotFound
         else if filter (row_matches digits) rows = [] \<and> rows = [] then Inl NoSearchResult
         else result (chat_open_loop page digits 0 0))"

definition saved_contact :: "nat \<Rightarrow> header" where
  \<comment> \<open>a chat whose title is the name of a saved contact, composer shown at every poll\<close>
  "saved_contact i = \<lparr>composer = True, chatTitle = ''Maria''\<rparr>"

definition no_chat :: "nat \<Rightarrow> header" where
  \<comment> \<open>a conversation pane whose composer never appears\<close>
  "no_chat i = \<lparr>composer = False, chatTitle = ''chat_desconhecido''\<rparr>"

definition never_there :: "nat \<Rightarrow> bool" where
  \<comment> \<open>an element that never appears\<close>
  "never_there i = False"

section \<open>Campaign runner\<close>

text \<open>
  \<^verbatim>\<open>executeDomCampaign\<close> is an async function on the page's single thread. Its state is
  the object \<^verbatim>\<open>campRun\<close>, the persisted record of \<^verbatim>\<open>CampaignStorage\<close> and the place
  where the function is suspended (\<open>pc\<close>) with its loop variable \<open>idx\<close>. The events
  are the two buttons and \<open>Wake\<close>, the completion of the pending \<^verbatim>\<open>await\<close>. Between two
  events the code runs without interruption, so each event is one step.

  The body of the \<^verbatim>\<open>try\<close> block (open the chat, insert or attach, send) reads neither
  flag of \<^verbatim>\<open>campRun\<close>; what it does on the page is the oracle \<open>contact\<close>, which gives
  for the index of a contact \<open>None\<close> when the block completes and \<open>Some e\<close> when it
  throws \<open>e\<close>. The field \<^verbatim>\<open>startedAt\<close> of the persisted record, a time stamp, is left
  out; the write to storage is recorded when it is issued.
\<close>

record campRun =
  running :: bool
  paused :: bool
  abort :: bool
  cursor :: nat
  total :: nat

datatype status = StatusRunning | StatusAborted

record saved =
  s_entries :: "entry list"
  s_message :: string
  s_cursor :: nat
  s_status :: status

datatype report =
    Interrupted   \<comment> \<open>\<^verbatim>\<open>Campanha interrompida pelo usuario.\<close>\<close>
  | Completed     \<comment> \<open>\<^verbatim>\<open>Campanha concluida!\<close>\<close>

datatype pc =
    Idle             \<comment> \<open>no call of \<^verbatim>\<open>executeDomCampaign\<close> is in flight\<close>
  | SavingInitial    \<comment> \<open>\<^verbatim>\<open>await CampaignStorage.save\<close> before the loop\<close>
  | WaitingPaused    \<comment> \<open>\<^verbatim>\<open>await sleep(250)\<close> inside \<^verbatim>\<open>waitWhilePaused\<close>\<close>
  | InContact        \<comment> \<open>inside the \<^verbatim>\<open>try\<close> block of contact \<open>idx\<close>\<close>
  | SavingProgress   \<comment> \<open>\<^verbatim>\<open>await CampaignStorage.save\<close> of the \<^verbatim>\<open>finally\<close> block\<close>
  | Delaying         \<comment> \<open>the random delay between two contacts\<close>
  | Clearing         \<comment> \<open>\<^verbatim>\<open>await CampaignStorage.clear()\<close> after the loop\<close>
  | Done             \<comment> \<open>the call has returned\<close>

datatype event = Wake | ClickPause | ClickStop

record run =
  flags :: campRun                             \<comment> \<open>the object \<^verbatim>\<open>campRun\<close>\<close>
  pc :: pc
  entries :: "entry list"
  msg :: string
  idx :: nat                                   \<comment> \<open>the loop variable \<^verbatim>\<open>i\<close>\<close>
  stored :: "saved option"                     \<comment> \<open>what \<^verbatim>\<open>CampaignStorage\<close> holds\<close>
  attempted :: "nat list"                      \<comment> \<open>the contacts whose \<^verbatim>\<open>try\<close> block was entered\<close>
  outcomes :: "(nat \<times> error option) list"     \<comment> \<open>how each \<^verbatim>\<open>try\<close> block ended\<close>
  report :: "report option"                    \<comment> \<open>the final status line\<close>

definition idle :: run where
  "idle = \<lparr>flags = \<lparr>running = False, paused = False, abort = False, cursor = 0, total = 0\<rparr>,
           pc = Idle, entries = [], msg = [], idx = 0, stored = None, attempted = [],
           outcomes = [], report = None\<rparr>"

definition executeDomCampaign :: "entry list \<Rightarrow> string \<Rightarrow> run \<Rightarrow> run" where
  \<comment> \<open>the call, up to its first \<^verbatim>\<open>await\<close>\<close>
  "executeDomCampaign es m st =
     st\<lparr>flags := \<lparr>running = True, paused = False, abort = False, cursor = 0, total = length es\<rparr>,
        pc := SavingInitial, entries := es, msg := m, idx := 0,
        stored := Some \<lparr>s_entries = es, s_message = m, s_cursor = 0, s_status = StatusRunning\<rparr>,
        attempted := [], outcomes := [], report := None\<rparr>"

definition finish :: "run \<Rightarrow> run" where
  \<comment> \<open>the code after the loop, up to \<^verbatim>\<open>await CampaignStorage.clear()\<close>\<close>
  "finish st =
     st\<lparr>flags := (flags st)\<lparr>running := False, paused := False\<rparr>,
        report := Some (if abort (flags st) then Interrupted else Completed),
        pc := Clearing\<rparr>"

definition begin_contact :: "run \<Rightarrow> run" where
  "begin_contact st = st\<lparr>pc := InContact, attempted := attempted st @ [idx st]\<rparr>"

definition after_pause :: "run \<Rightarrow> run" where
  \<comment> \<open>the second \<^verbatim>\<open>if (campRun.abort) break\<close>, then the \<^verbatim>\<open>try\<close> block\<close>
  "after_pause st = (if abort (flags st) then finish st else begin_contact st)"

definition loop_head :: "run \<Rightarrow> run" where
  \<comment> \<open>the loop test, the first abort check and the first test of \<^verbatim>\<open>waitWhilePaused\<close>\<close>
  "loop_head st =
     (if idx st < length (entries st) then
        (if abort (flags st) then finish st
         else if paused (flags st) \<and> \<not> abort (flags st) then st\<lparr>pc := WaitingPaused\<rparr>
         else after_pause st)
      else finish st)"

definition end_contact :: "(nat \<Rightarrow> error option) \<Rightarrow> run \<Rightarrow> run" where
  \<comment> \<open>the \<^verbatim>\<open>try\<close> block ends, by completion or by \<^verbatim>\<open>catch\<close>; then the \<^verbatim>\<open>finally\<close> block up
      to its \<^verbatim>\<open>await\<close>\<close>
  "end_contact contact st =
     st\<lparr>flags := (flags st)\<lparr>cursor := idx st + 1\<rparr>,
        outcomes := outcomes st @ [(idx st, contact (idx st))],
        stored := Some \<lparr>s_entries = entries st, s_message = msg st, s_cursor = idx st + 1,
                        s_status = (if abort (flags st) then StatusAborted else StatusRunning)\<rparr>,
        pc := SavingProgress\<rparr>"

definition wake :: "(nat \<Rightarrow> error option) \<Rightarrow> run \<Rightarrow> run" where
  "wake contact st =
     (case pc st of
        Idle \<Rightarrow> st
      | SavingInitial \<Rightarrow> loop_head st
      | WaitingPaused \<Rightarrow>
          (if paused (flags st) \<and> \<not> abort (flags st) then st else after_pause st)
      | InContact \<Rightarrow> end_contact contact st
      | SavingProgress \<Rightarrow>
          \<comment> \<open>\<^verbatim>\<open>if (i < entries.length - 1)\<close> the delay, else the next turn of the loop\<close>
          (if idx st + 1 < length (entries st) then st\<lparr>pc := Delaying\<rparr>
           else loop_head (st\<lparr>idx := idx st + 1\<rparr>))
      | Delaying \<Rightarrow> loop_head (st\<lparr>idx := idx st + 1\<rparr>)
      | Clearing \<Rightarrow> st\<lparr>stored := None, pc := Done\<rparr>
      | Done \<Rightarrow> st)"

definition click_pause :: "run \<Rightarrow> run" where
  "click_pause st =
     (if \<not> running (flags st) then st
      else st\<lparr>flags := (flags st)\<lparr>paused := \<not> paused (flags st)\<rparr>\<rparr>)"

definition click_stop :: "run \<Rightarrow> run" where
  "click_stop st =
     (if \<not> running (flags st) then st
      else st\<lparr>flags := (flags st)\<lparr>abort := True, paused := False\<rparr>\<rparr>)"

fun step :: "(nat \<Rightarrow> error option) \<Rightarrow> event \<Rightarrow> run \<Rightarrow> run" where
  "step contact Wake st = wake contact st"
| "step contact ClickPause st = click_pause st"
| "step contact ClickStop st = click_stop st"

fun exec :: "(nat \<Rightarrow> error option) \<Rightarrow> event list \<Rightarrow> run \<Rightarrow> run" where
  "exec contact [] st = st"
| "exec contact (e # es) st = exec contact es (step contact e st)"

subsection \<open>Starting a run\<close>

datatype start_error =
    NoNumbers            \<comment> \<open>\<^verbatim>\<open>Cole pelo menos 1 numero.\<close>\<close>
  | NoMessageNorMedia    \<comment> \<open>\<^verbatim>\<open>Digite a mensagem ou selecione uma midia.\<close>\<close>
  | AlreadyRunning       \<comment> \<open>\<^verbatim>\<open>Ja existe uma execucao em andamento.\<close>\<close>
  | NoScheduleTime       \<comment> \<open>\<^verbatim>\<open>Selecione data e hora para o agendamento.\<close>\<close>
  | ScheduleNotFuture    \<comment> \<open>\<^verbatim>\<open>A data/hora deve ser no futuro.\<close>\<close>

datatype schedule = SendNow | SendLater "int option"

datatype started = PreviewShown | CampaignScheduled

definition campStartBtn_click ::
  "run \<Rightarrow> string \<Rightarrow> string \<Rightarrow> bool \<Rightarrow> schedule \<Rightarrow> int \<Rightarrow> start_error + started" where
  \<comment> \<open>\<open>raw\<close> and \<open>text\<close> are the two text areas, \<open>hasMedia\<close> says whether a media payload is
      loaded, \<open>now\<close> is the clock\<close>
  "campStartBtn_click st raw text hasMedia sched now =
     (if parseCampaignLines raw = [] then Inl NoNumbers
      else if trim text = [] \<and> \<not> hasMedia then Inl NoMessageNorMedia
      else if running (flags st) then Inl AlreadyRunning
      else (case sched of
              SendLater None \<Rightarrow> Inl NoScheduleTime
            | SendLater (Some t) \<Rightarrow> if t \<le> now then Inl ScheduleNotFuture else Inr CampaignScheduled
            | SendNow \<Rightarrow> Inr PreviewShown))"

definition previewConfirmBtn_click :: "run \<Rightarrow> string \<Rightarrow> string \<Rightarrow> run" where
  "previewConfirmBtn_click st raw text = executeDomCampaign (parseCampaignLines raw) (trim text) st"

definition executeDomCampaignDirectly ::
  "(nat \<Rightarrow> error option) \<Rightarrow> entry list \<Rightarrow> (nat \<times> error option) list" where
  \<comment> \<open>the module-level runner of the message listener: one \<^verbatim>\<open>try\<close> block per entry, every
      error caught; the result lists the contacts processed and how each block ended\<close>
  "executeDomCampaignDirectly contact es = map (\<lambda>i. (i, contact i)) [0 ..< length es]"

datatype message =
    EXECUTE_SCHEDULED_CAMPAIGN "entry list" string
  | SEND_TEAM_MESSAGES "(string \<times> string) list" string

datatype response = NoResponse | ResponseOk nat | ResponseError

definition onMessage ::
  "(nat \<Rightarrow> error option) \<Rightarrow> bool \<Rightarrow> run \<Rightarrow> message \<Rightarrow> (nat \<times> error option) list \<times> response" where
  \<comment> \<open>the listener of \<^verbatim>\<open>chrome.runtime.onMessage\<close>; \<open>mounted\<close>: the extension's panel is in the
      page; \<open>st\<close> is the state of the panel's runner, which the listener cannot reach\<close>
  "onMessage contact mounted st m =
     (case m of
        EXECUTE_SCHEDULED_CAMPAIGN es text \<Rightarrow>
          if \<not> mounted then ([], NoResponse)
          else (executeDomCampaignDirectly contact es, NoResponse)
      | SEND_TEAM_MESSAGES members text \<Rightarrow>
          if text = [] then ([], ResponseError)
          else (let es = map (\<lambda>(nm, phone). \<lparr>number = normalizePhoneNumber phone, name = nm\<rparr>) members
                in (executeDomCampaignDirectly contact es, ResponseOk (length es))))"

subsection \<open>Sample runs\<close>

definition three_contacts :: "entry list" where
  "three_contacts =
     [\<lparr>number = ''+5511999990001'', name = ''Ana''\<rparr>,
      \<lparr>number = ''+5511999990002'', name = ''''\<rparr>,
      \<lparr>number = ''+5511999990003'', name = ''Caio''\<rparr>]"

definition second_fails :: "nat \<Rightarrow> error option" where
  \<comment> \<open>contact 2 of 3 cannot be opened\<close>
  "second_fails i = (if i = 1 then Some ChatOpenFailed else None)"

definition all_fail :: "nat \<Rightarrow> error option" where
  "all_fail i = Some ChatOpenFailed"

definition all_sent :: "nat \<Rightarrow> error option" where
  "all_sent i = None"

definition in_first_contact :: run where
  \<comment> \<open>a run of the panel, suspended inside the \<^verbatim>\<open>try\<close> block of its first contact\<close>
  "in_first_contact = exec all_sent [Wake] (executeDomCampaign three_contacts ''oi'' idle)"

subsection \<open>What holds at every suspension point of a run\<close>

definition finished :: "run \<Rightarrow> bool" where
  "finished st =
     (\<not> running (flags st) \<and>
      (if abort (flags st) then report st = Some Interrupted
       else report st = Some Completed \<and> attempted st = [0 ..< length (entries st)]
            \<and> cursor (flags st) = length (entries st)))"

definition in_loop :: "run \<Rightarrow> nat \<Rightarrow> nat \<Rightarrow> bool" where
  \<comment> \<open>the run is live, has entered \<open>a\<close> contacts and completed \<open>c\<close> of them\<close>
  "in_loop st a c =
     (running (flags st) \<and> attempted st = [0 ..< a] \<and> cursor (flags st) = c \<and> report st = None)"

definition run_inv :: "run \<Rightarrow> bool" where
  "run_inv st =
     (map fst (outcomes st) = [0 ..< cursor (flags st)] \<and>
      (case pc st of
         Idle \<Rightarrow> False
       | SavingInitial \<Rightarrow> idx st = 0 \<and> in_loop st 0 0
       | WaitingPaused \<Rightarrow> idx st < length (entries st) \<and> in_loop st (idx st) (idx st)
       | InContact \<Rightarrow> idx st < length (entries st) \<and> in_loop st (idx st + 1) (idx st)
       | SavingProgress \<Rightarrow> idx st < length (entries st) \<and> in_loop st (idx st + 1) (idx st + 1)
       | Delaying \<Rightarrow> idx st + 1 < length (entries st) \<and> in_loop st (idx st + 1) (idx st + 1)
       | Clearing \<Rightarrow> finished st
       | Done \<Rightarrow> finished st))"


definition undisturbed_at ::"entry list \<Rightarrow> string \<Rightarrow> (nat \<Rightarrow> error option) \<Rightarrow> nat \<Rightarrow> run" where
  \<comment> \<open>a run that met no click, inside the \<^verbatim>\<open>try\<close> block of contact \<open>i\<close>\<close>
  "undisturbed_at es m contact i =
     \<lparr>flags = \<lparr>running = True, paused = False, abort = False, cursor = i, total = length es\<rparr>,
      pc = InContact, entries = es, msg = m, idx = i,
      stored = Some \<lparr>s_entries = es, s_message = m, s_cursor = i, s_status = StatusRunning\<rparr>,
      attempted = [0 ..< i + 1], outcomes = map (\<lambda>j. (j, contact j)) [0 ..< i], report = None\<rparr>"

definition completed_run :: "entry list \<Rightarrow> string \<Rightarrow> (nat \<Rightarrow> error option) \<Rightarrow> run" where
  "completed_run es m contact =
     \<lparr>flags = \<lparr>running = False, paused = False, abort = False, cursor = length es,
               total = length es\<rparr>,
      pc = Done, entries = es, msg = m, idx = length es, stored = None,
      attempted = [0 ..< length es], outcomes = map (\<lambda>j. (j, contact j)) [0 ..< length es],
      report = Some Completed\<rparr>"

definition sample_start :: run where
  "sample_start = executeDomCampaign three_contacts ''oi'' idle"

definition in_second_contact :: run where
  \<comment> \<open>the sample run, suspended inside the \<^verbatim>\<open>try\<close> block of the contact that fails\<close>
  "in_second_contact = exec second_fails [Wake, Wake, Wake, Wake] sample_start"




section \<open>Properties\<close>

subsection \<open>Normalization\<close>

lemma is_digit_5: "is_digit CHR ''5''"
  by (simp add: is_digit_def)

lemma keep_digits_plus_set: "c \<in> set (keep_digits_plus s) \<Longrightarrow> is_digit c \<or> c = CHR ''+''"
  by (simp add: keep_digits_plus_def)

lemma keep_digits_plus_id:
  "\<forall>c\<in>set s. is_digit c \<or> c = CHR ''+'' \<Longrightarrow> keep_digits_plus s = s"
  by (simp add: keep_digits_plus_def filter_id_conv)

lemma normalize_cases:
  "normalizePhoneNumber n = keep_digits_plus n \<and> startsWith (keep_digits_plus n) ''+''
   \<or> normalizePhoneNumber n = ''+'' @ keep_digits_plus n
   \<or> normalizePhoneNumber n = ''+55'' @ keep_digits_plus n"
  by (simp add: normalizePhoneNumber_def Let_def)

lemma normalize_chars:
  "c \<in> set (normalizePhoneNumber n) \<Longrightarrow> is_digit c \<or> c = CHR ''+''"
  using normalize_cases[of n] keep_digits_plus_set[of c n] is_digit_5 by auto

lemma normalize_starts: "startsWith (normalizePhoneNumber n) ''+''"
  using normalize_cases[of n] by (auto simp: startsWith_def)

subsection \<open>The insertion-ordered map\<close>

lemma map_of_Map_set: "map_of (Map_set k v m) = (map_of m)(k \<mapsto> v)"
  by (induction m) (auto simp: fun_upd_twist)

lemma keys_Map_set:
  "map fst (Map_set k v m) = (if k \<in> fst ` set m then map fst m else map fst m @ [k])"
  by (induction m) force+

lemma keyset_Map_set: "fst ` set (Map_set k v m) = insert k (fst ` set m)"
proof -
  have "set (map fst (Map_set k v m)) = insert k (set (map fst m))"
    unfolding keys_Map_set by auto
  then show ?thesis by simp
qed

lemma find_app:
  "find P (xs @ ys) = (case find P xs of None \<Rightarrow> find P ys | Some x \<Rightarrow> Some x)"
  by (induction xs) auto

lemma find_Some_mem: "find P xs = Some x \<Longrightarrow> x \<in> set xs"
  by (induction xs) (auto split: if_splits)

lemma distinct_fold_set:
  "distinct (map fst m) \<Longrightarrow> distinct (map fst (foldl (\<lambda>m e. Map_set (number e) e m) m es))"
  by (induction es arbitrary: m) (simp_all add: keys_Map_set)

lemma keys_fold_set:
  "fst ` set (foldl (\<lambda>m e. Map_set (number e) e m) m es) = fst ` set m \<union> number ` set es"
  by (induction es arbitrary: m) (simp_all add: keyset_Map_set)

lemma map_of_fold_set:
  "map_of (foldl (\<lambda>m e. Map_set (number e) e m) m es) k =
     (case find (\<lambda>x. number x = k) (rev es) of Some e \<Rightarrow> Some e | None \<Rightarrow> map_of m k)"
proof (induction es arbitrary: m)
  case Nil
  show ?case by simp
next
  case (Cons e es)
  show ?case
    by (simp add: Cons.IH map_of_Map_set find_app split: option.splits)
qed

lemma distinct_dedup: "distinct (map fst (dedup_entries es))"
  unfolding dedup_entries_def by (rule distinct_fold_set) simp

lemma keys_dedup: "fst ` set (dedup_entries es) = number ` set es"
  unfolding dedup_entries_def by (simp add: keys_fold_set)

lemma map_of_dedup: "map_of (dedup_entries es) k = find (\<lambda>x. number x = k) (rev es)"
  unfolding dedup_entries_def by (simp add: map_of_fold_set split: option.splits)

lemma dedup_pair:
  assumes "(k, e) \<in> set (dedup_entries es)"
  shows "find (\<lambda>x. number x = k) (rev es) = Some e" and "number e = k"
proof -
  have "map_of (dedup_entries es) k = Some e"
    using assms distinct_dedup by simp
  then show f: "find (\<lambda>x. number x = k) (rev es) = Some e"
    by (simp add: map_of_dedup)
  then show "number e = k"
    by (auto simp: find_Some_iff)
qed

lemma numbers_dedup: "map (number \<circ> snd) (dedup_entries es) = map fst (dedup_entries es)"
proof (rule map_cong[OF refl])
  fix p assume "p \<in> set (dedup_entries es)"
  then have "(fst p, snd p) \<in> set (dedup_entries es)" by simp
  from dedup_pair(2)[OF this] show "(number \<circ> snd) p = fst p" by simp
qed

subsection \<open>Parsing\<close>

lemma parse_line_number:
  assumes "parse_line l = Some e"
  shows "startsWith (number e) ''+''" and "\<forall>c\<in>set (number e). is_digit c \<or> c = CHR ''+''"
proof -
  define num where
    "num = keep_digits_plus (case map trim (split_on (CHR '','') l) of [] \<Rightarrow> [] | p # _ \<Rightarrow> p)"
  have e: "number e = (if startsWith num ''+'' then num else ''+'' @ num)"
    using assms by (auto simp: parse_line_def Let_def num_def split: if_splits)
  show "startsWith (number e) ''+''"
    unfolding e by (simp add: startsWith_def)
  have "\<forall>c\<in>set num. is_digit c \<or> c = CHR ''+''"
    unfolding num_def using keep_digits_plus_set by blast
  then show "\<forall>c\<in>set (number e). is_digit c \<or> c = CHR ''+''"
    unfolding e by auto
qed

lemma parsed_entries_src: "e \<in> set (parsed_entries raw) \<Longrightarrow> \<exists>l. parse_line l = Some e"
  by (auto simp: parsed_entries_def map_filter_def)

lemma parseCampaignLines_last:
  assumes "e \<in> set (parseCampaignLines raw)"
  shows "find (\<lambda>x. number x = number e) (rev (parsed_entries raw)) = Some e"
proof -
  obtain k where k: "(k, e) \<in> set (dedup_entries (parsed_entries raw))"
    using assms by (auto simp: parseCampaignLines_def)
  from dedup_pair[OF k] show ?thesis by simp
qed

lemma parseCampaignLines_subset: "set (parseCampaignLines raw) \<subseteq> set (parsed_entries raw)"
proof
  fix e assume "e \<in> set (parseCampaignLines raw)"
  then have "find (\<lambda>x. number x = number e) (rev (parsed_entries raw)) = Some e"
    by (rule parseCampaignLines_last)
  then have "e \<in> set (rev (parsed_entries raw))"
    by (rule find_Some_mem)
  then show "e \<in> set (parsed_entries raw)" by simp
qed

lemma parseCampaignLines_numbers:
  "map number (parseCampaignLines raw) = map fst (dedup_entries (parsed_entries raw))"
  by (simp add: parseCampaignLines_def numbers_dedup)

lemma parseCampaignLines_src:
  "e \<in> set (parseCampaignLines raw) \<Longrightarrow> \<exists>l. parse_line l = Some e"
  using parseCampaignLines_subset parsed_entries_src by blast

lemma parsed_entries_line:
  "e \<in> set (parsed_entries raw) \<Longrightarrow> \<exists>l \<in> set (campaign_lines raw). parse_line l = Some e"
  by (auto simp: parsed_entries_def campaign_lines_def map_filter_def)

lemma parseCampaignLines_line:
  "e \<in> set (parseCampaignLines raw) \<Longrightarrow> \<exists>l \<in> set (campaign_lines raw). parse_line l = Some e"
  using parseCampaignLines_subset parsed_entries_line by blast

subsection \<open>Plus signs after the first character\<close>

lemma not_digit_plus: "\<not> is_digit CHR ''+''"
  by (simp add: is_digit_def)

lemma digits_no_plus:
  "\<forall>c\<in>set s. is_digit c \<or> c = CHR ''+'' \<Longrightarrow> list_all is_digit s = (CHR ''+'' \<notin> set s)"
  using not_digit_plus by (auto simp: list_all_iff)

lemma plus_prefixed:
  assumes k: "\<forall>c\<in>set k. is_digit c \<or> c = CHR ''+''"
    and r: "r = k \<and> startsWith k ''+''
            \<or> \<not> startsWith k ''+'' \<and> (r = ''+'' @ k \<or> r = ''+55'' @ k)"
  shows "filter (\<lambda>c. c = CHR ''+'') (tl r) = filter (\<lambda>c. c = CHR ''+'') (tl k)"
    and "plain_number r = (CHR ''+'' \<notin> set (tl k))"
proof -
  show "filter (\<lambda>c. c = CHR ''+'') (tl r) = filter (\<lambda>c. c = CHR ''+'') (tl k)"
  proof (cases k)
    case Nil
    with r show ?thesis by (auto simp: startsWith_def)
  next
    case (Cons c cs)
    with r show ?thesis by (auto simp: startsWith_def)
  qed
  show "plain_number r = (CHR ''+'' \<notin> set (tl k))"
  proof (cases k)
    case Nil
    with r show ?thesis by (auto simp: plain_number_def startsWith_def is_digit_5)
  next
    case (Cons c cs)
    from k Cons have cs: "\<forall>c\<in>set cs. is_digit c \<or> c = CHR ''+''"
      and c: "is_digit c \<or> c = CHR ''+''"
      by simp_all
    show ?thesis
    proof (cases "c = CHR ''+''")
      case True
      with r Cons have "r = k" by (auto simp: startsWith_def)
      with Cons True digits_no_plus[OF cs] show ?thesis by (simp add: plain_number_def)
    next
      case False
      with c have d: "is_digit c" by simp
      from False r Cons have "r = ''+'' @ k \<or> r = ''+55'' @ k" by (auto simp: startsWith_def)
      with Cons d False digits_no_plus[OF cs] show ?thesis
        by (auto simp: plain_number_def is_digit_5)
    qed
  qed
qed

lemma normalize_branches:
  "normalizePhoneNumber n = keep_digits_plus n \<and> startsWith (keep_digits_plus n) ''+''
   \<or> \<not> startsWith (keep_digits_plus n) ''+''
     \<and> (normalizePhoneNumber n = ''+'' @ keep_digits_plus n
        \<or> normalizePhoneNumber n = ''+55'' @ keep_digits_plus n)"
  by (simp add: normalizePhoneNumber_def Let_def)

lemma normalize_inner:
  "filter (\<lambda>c. c = CHR ''+'') (tl (normalizePhoneNumber n))
     = filter (\<lambda>c. c = CHR ''+'') (tl (keep_digits_plus n))"
  "plain_number (normalizePhoneNumber n) = (CHR ''+'' \<notin> set (tl (keep_digits_plus n)))"
  using plus_prefixed[OF _ normalize_branches, of n] keep_digits_plus_set by blast+

lemma parse_line_field:
  assumes "parse_line l = Some e"
  shows "number e
    = (if startsWith (number_field l) ''+'' then number_field l else ''+'' @ number_field l)"
  using assms by (auto simp: parse_line_def number_field_def Let_def split: if_splits)

lemma parse_line_inner:
  assumes "parse_line l = Some e"
  shows "filter (\<lambda>c. c = CHR ''+'') (tl (number e))
      = filter (\<lambda>c. c = CHR ''+'') (tl (number_field l))"
    and "plain_number (number e) = (CHR ''+'' \<notin> set (tl (number_field l)))"
proof -
  have k: "\<forall>c\<in>set (number_field l). is_digit c \<or> c = CHR ''+''"
    unfolding number_field_def using keep_digits_plus_set by blast
  have r: "number e = number_field l \<and> startsWith (number_field l) ''+''
     \<or> \<not> startsWith (number_field l) ''+''
       \<and> (number e = ''+'' @ number_field l \<or> number e = ''+55'' @ number_field l)"
    using parse_line_field[OF assms] by simp
  from plus_prefixed[OF k r]
  show "filter (\<lambda>c. c = CHR ''+'') (tl (number e))
      = filter (\<lambda>c. c = CHR ''+'') (tl (number_field l))"
    and "plain_number (number e) = (CHR ''+'' \<notin> set (tl (number_field l)))" .
qed

lemma parsed_sample_contacts: "parsed_entries sample_contacts =
  [\<lparr>number = ''+5511999990001'', name = ''Ana''\<rparr>,
   \<lparr>number = ''+5511999990002'', name = ''''\<rparr>,
   \<lparr>number = ''+5511999990001'', name = ''Bia''\<rparr>]"
  by code_simp

lemma parse_sample_contacts: "parseCampaignLines sample_contacts =
  [\<lparr>number = ''+5511999990001'', name = ''Bia''\<rparr>,
   \<lparr>number = ''+5511999990002'', name = ''''\<rparr>]"
  by code_simp


subsection \<open>Deduplication, number shape and idempotence\<close>

text \<open>
  Claim C8. For every contact-list text, \<open>parseCampaignLines\<close> returns one entry per
  normalized number: the numbers of the result are pairwise distinct, they are exactly
  the numbers of the parsed lines, none of them is empty, and the entry kept for a number
  is the last parsed line with that number.
\<close>

theorem parseCampaignLines_dedup:
  "distinct (map number (parseCampaignLines raw))
   \<and> set (map number (parseCampaignLines raw)) = set (map number (parsed_entries raw))
   \<and> [] \<notin> set (map number (parseCampaignLines raw))
   \<and> (\<forall>e \<in> set (parseCampaignLines raw).
         find (\<lambda>x. number x = number e) (rev (parsed_entries raw)) = Some e)"
proof (intro conjI ballI)
  show "distinct (map number (parseCampaignLines raw))"
    unfolding parseCampaignLines_numbers by (rule distinct_dedup)
  show "set (map number (parseCampaignLines raw)) = set (map number (parsed_entries raw))"
    unfolding parseCampaignLines_numbers using keys_dedup[of "parsed_entries raw"] by simp
  show "[] \<notin> set (map number (parseCampaignLines raw))"
  proof
    assume "[] \<in> set (map number (parseCampaignLines raw))"
    then obtain e where e: "e \<in> set (parseCampaignLines raw)" "number e = []" by auto
    then obtain l where "parse_line l = Some e"
      using parseCampaignLines_src by blast
    from parse_line_number(1)[OF this] e(2) show False
      by (simp add: startsWith_def)
  qed
next
  fix e assume "e \<in> set (parseCampaignLines raw)"
  then show "find (\<lambda>x. number x = number e) (rev (parsed_entries raw)) = Some e"
    by (rule parseCampaignLines_last)
qed

text \<open>The theorem at a three-line list whose third line repeats the first number.\<close>

theorem parseCampaignLines_dedup_witness:
  "parseCampaignLines sample_contacts =
     [\<lparr>number = ''+5511999990001'', name = ''Bia''\<rparr>,
      \<lparr>number = ''+5511999990002'', name = ''''\<rparr>]
   \<and> distinct (map number (parseCampaignLines sample_contacts))
   \<and> find (\<lambda>x. number x = ''+5511999990001'') (rev (parsed_entries sample_contacts))
       = Some \<lparr>number = ''+5511999990001'', name = ''Bia''\<rparr>"
  using parseCampaignLines_dedup[of sample_contacts] by (simp add: parse_sample_contacts)

text \<open>
  Claim C9, as stated, fails: a plus sign inside the input survives the character
  filter, so the number of a parsed entry and the result of \<open>normalizePhoneNumber\<close>
  can carry a plus sign after the first character.
\<close>

theorem number_shape_counterexample:
  "parseCampaignLines ''55+11'' = [\<lparr>number = ''+55+11'', name = ''''\<rparr>]
   \<and> \<not> plain_number ''+55+11''
   \<and> normalizePhoneNumber ''55+11'' = ''+5555+11''
   \<and> \<not> plain_number ''+5555+11''"
  by code_simp

text \<open>
  Claim C9, amended. Every number produced by \<open>parseCampaignLines\<close> comes from a
  trimmed, non-empty line of the text, and like every result of \<open>normalizePhoneNumber\<close>
  it starts with a plus sign and consists of decimal digits and plus signs only. After
  its first character it carries as many plus signs as the input has after its first
  kept character, the kept characters being the digits and plus signs of the line's
  first field, respectively of the argument: the plus sign that the code prefixes
  stands in front, and no plus sign of the input is removed. So the number holds only
  digits and an optional leading plus sign exactly when the input has no plus sign
  after its first kept character.
\<close>

theorem number_shape:
  "(\<forall>e \<in> set (parseCampaignLines raw). \<exists>l \<in> set (campaign_lines raw).
      parse_line l = Some e
      \<and> startsWith (number e) ''+''
      \<and> (\<forall>c \<in> set (number e). is_digit c \<or> c = CHR ''+'')
      \<and> filter (\<lambda>c. c = CHR ''+'') (tl (number e))
          = filter (\<lambda>c. c = CHR ''+'') (tl (number_field l))
      \<and> plain_number (number e) = (CHR ''+'' \<notin> set (tl (number_field l))))
   \<and> startsWith (normalizePhoneNumber n) ''+''
   \<and> (\<forall>c \<in> set (normalizePhoneNumber n). is_digit c \<or> c = CHR ''+'')
   \<and> filter (\<lambda>c. c = CHR ''+'') (tl (normalizePhoneNumber n))
       = filter (\<lambda>c. c = CHR ''+'') (tl (keep_digits_plus n))
   \<and> plain_number (normalizePhoneNumber n) = (CHR ''+'' \<notin> set (tl (keep_digits_plus n)))"
proof (intro conjI ballI)
  fix e assume "e \<in> set (parseCampaignLines raw)"
  then obtain l where l: "l \<in> set (campaign_lines raw)" "parse_line l = Some e"
    using parseCampaignLines_line by blast
  from l parse_line_number[OF l(2)] parse_line_inner[OF l(2)]
  show "\<exists>l \<in> set (campaign_lines raw).
      parse_line l = Some e
      \<and> startsWith (number e) ''+''
      \<and> (\<forall>c \<in> set (number e). is_digit c \<or> c = CHR ''+'')
      \<and> filter (\<lambda>c. c = CHR ''+'') (tl (number e))
          = filter (\<lambda>c. c = CHR ''+'') (tl (number_field l))
      \<and> plain_number (number e) = (CHR ''+'' \<notin> set (tl (number_field l)))"
    by blast
qed (use normalize_starts normalize_chars normalize_inner in blast)+

text \<open>
  The amended claim at the sample list and at a formatted national number, whose
  numbers are plain, and at the input of the counterexample, whose inner plus sign is
  kept.
\<close>

theorem number_shape_witness:
  "parseCampaignLines sample_contacts =
     [\<lparr>number = ''+5511999990001'', name = ''Bia''\<rparr>,
      \<lparr>number = ''+5511999990002'', name = ''''\<rparr>]
   \<and> plain_number ''+5511999990001''
   \<and> plain_number ''+5511999990002''
   \<and> normalizePhoneNumber ''(11) 99999-0001'' = ''+5511999990001''
   \<and> plain_number (normalizePhoneNumber ''(11) 99999-0001'')
   \<and> parseCampaignLines ''55+11'' = [\<lparr>number = ''+55+11'', name = ''''\<rparr>]
   \<and> filter (\<lambda>c. c = CHR ''+'') (tl ''+55+11'') = ''+''
   \<and> filter (\<lambda>c. c = CHR ''+'') (tl (normalizePhoneNumber ''55+11'')) = ''+''
   \<and> \<not> plain_number (normalizePhoneNumber ''55+11'')"
proof -
  have p: "parseCampaignLines sample_contacts =
     [\<lparr>number = ''+5511999990001'', name = ''Bia''\<rparr>,
      \<lparr>number = ''+5511999990002'', name = ''''\<rparr>]"
    "parseCampaignLines ''55+11'' = [\<lparr>number = ''+55+11'', name = ''''\<rparr>]"
    by code_simp+
  have l: "campaign_lines sample_contacts
      = [''+5511999990001,Ana'', ''5511999990002'', ''+55 11 99999-0001, Bia'']"
    "campaign_lines ''55+11'' = [''55+11'']"
    by code_simp+
  have f: "number_field ''+5511999990001,Ana'' = ''+5511999990001''"
    "number_field ''5511999990002'' = ''5511999990002''"
    "number_field ''+55 11 99999-0001, Bia'' = ''+5511999990001''"
    "number_field ''55+11'' = ''55+11''"
    by code_simp+
  have n: "normalizePhoneNumber ''(11) 99999-0001'' = ''+5511999990001''"
    "keep_digits_plus ''(11) 99999-0001'' = ''11999990001''"
    "keep_digits_plus ''55+11'' = ''55+11''"
    by code_simp+
  from number_shape[of sample_contacts "''(11) 99999-0001''"]
    number_shape[of "''55+11''" "''55+11''"]
  show ?thesis
    unfolding p l by (auto simp: f n)
qed

text \<open>
  Claim C10. Phone normalization is idempotent: normalizing a normalized number changes
  nothing.
\<close>

theorem normalizePhoneNumber_idempotent:
  "normalizePhoneNumber (normalizePhoneNumber n) = normalizePhoneNumber n"
proof -
  let ?r = "normalizePhoneNumber n"
  have "keep_digits_plus ?r = ?r"
    by (rule keep_digits_plus_id) (use normalize_chars in blast)
  moreover have "startsWith ?r ''+''" by (rule normalize_starts)
  ultimately show ?thesis
    by (simp add: normalizePhoneNumber_def[of ?r] Let_def)
qed


subsection \<open>The rate-limit window\<close>

lemma record_all_append: "record_all sent w = w @ sent"
  unfolding record_all_def
  by (induction sent arbitrary: w) (simp_all add: recordMessageSent_def)

lemma shift_old_fresh: "\<forall>t\<in>set ts. h \<le> t \<Longrightarrow> shift_old h ts = ts"
  by (cases ts) auto

lemma shift_old_keeps_fresh_suffix:
  "\<forall>t\<in>set ys. h \<le> t \<Longrightarrow> \<exists>pre. shift_old h (xs @ ys) = pre @ ys"
proof (induction xs)
  case Nil
  then show ?case by (simp add: shift_old_fresh)
next
  case (Cons x xs)
  then show ?case
    by (cases "x < h") (auto intro: exI[of _ "x # xs"])
qed

lemma shift_old_all_old: "\<forall>t\<in>set ts. t < h \<Longrightarrow> shift_old h ts = []"
  by (induction ts) auto

lemma shift_old_sorted: "sorted ts \<Longrightarrow> t \<in> set (shift_old h ts) \<Longrightarrow> h \<le> t"
  by (induction ts) (auto split: if_splits)


text \<open>
  Claim C6. The rate limiter is a sliding one-hour window. After \<open>maxMessagesPerHour\<close>
  (30) sends recorded within the hour before the check, whatever the window held before,
  \<open>checkRateLimit\<close> answers false; it answers false whenever the window it leaves holds
  more than the maximum; and once every recorded time is more than one hour old it
  answers true again, leaving the window empty.
\<close>

theorem rate_limit_window:
  "(length sent = maxMessagesPerHour \<and> (\<forall>t\<in>set sent. now - 3600000 \<le> t)
      \<longrightarrow> \<not> fst (checkRateLimit now (record_all sent w0)))
   \<and> (maxMessagesPerHour < length (snd (checkRateLimit now w))
      \<longrightarrow> \<not> fst (checkRateLimit now w))
   \<and> ((\<forall>t\<in>set w. t < later - 3600000)
      \<longrightarrow> fst (checkRateLimit later w) \<and> snd (checkRateLimit later w) = [])"
proof (intro conjI impI)
  assume a: "length sent = maxMessagesPerHour \<and> (\<forall>t\<in>set sent. now - 3600000 \<le> t)"
  then obtain pre where "shift_old (now - 3600000) (w0 @ sent) = pre @ sent"
    using shift_old_keeps_fresh_suffix by blast
  then show "\<not> fst (checkRateLimit now (record_all sent w0))"
    using a by (simp add: checkRateLimit_def record_all_append)
next
  assume "maxMessagesPerHour < length (snd (checkRateLimit now w))"
  then show "\<not> fst (checkRateLimit now w)"
    by (simp add: checkRateLimit_def Let_def)
next
  assume "\<forall>t\<in>set w. t < later - 3600000"
  then have "shift_old (later - 3600000) w = []"
    by (rule shift_old_all_old)
  then show "fst (checkRateLimit later w)" and "snd (checkRateLimit later w) = []"
    by (simp_all add: checkRateLimit_def maxMessagesPerHour_def)
qed

text \<open>
  Thirty sends at times 1 to 30 on a window holding time 0: refused at time 3600000,
  allowed again at time 3600031.
\<close>

theorem rate_limit_window_witness:
  "length (map int [1 ..< 31]) = maxMessagesPerHour
   \<and> \<not> fst (checkRateLimit 3600000 (record_all (map int [1 ..< 31]) [0]))
   \<and> fst (checkRateLimit 3600031 (record_all (map int [1 ..< 31]) [0]))
   \<and> snd (checkRateLimit 3600031 (record_all (map int [1 ..< 31]) [0])) = []"
proof -
  let ?sent = "map int [1 ..< 31]"
  have len: "length ?sent = maxMessagesPerHour"
    by (simp add: maxMessagesPerHour_def)
  have fresh: "\<forall>t\<in>set ?sent. (3600000::int) - 3600000 \<le> t"
    by auto
  have old: "\<forall>t\<in>set (record_all ?sent [0]). t < (3600031::int) - 3600000"
    by (auto simp: record_all_append)
  from rate_limit_window[of ?sent 3600000 "[0]" "record_all ?sent [0]" 3600031]
    len fresh old
  show ?thesis by blast
qed

text \<open>
  Claim C7, as stated, fails: \<open>recordMessageSent\<close> removes nothing. With a send recorded
  at time 0, a call at time 4000000 leaves the entry 0 in the window, more than one hour
  old.
\<close>

theorem record_prunes_counterexample:
  "recordMessageSent 4000000 [0] = [0, 4000000] \<and> (0::int) < 4000000 - 3600000"
  by (simp add: recordMessageSent_def)

text \<open>
  Claim C7, amended. \<open>recordMessageSent\<close> appends the current time and keeps every
  entry; the entries older than one hour are removed by \<open>checkRateLimit\<close>: on a window
  in chronological order it leaves only times of the last hour, and a
  \<open>recordMessageSent\<close> at the same time keeps that.
\<close>

theorem record_appends_check_prunes:
  "set w \<subseteq> set (recordMessageSent now w)
   \<and> length (recordMessageSent now w) = Suc (length w)
   \<and> last (recordMessageSent now w) = now
   \<and> (sorted w \<longrightarrow>
        (\<forall>t \<in> set (snd (checkRateLimit now w)). now - 3600000 \<le> t)
      \<and> (\<forall>t \<in> set (recordMessageSent now (snd (checkRateLimit now w))). now - 3600000 \<le> t))"
  using shift_old_sorted[of w _ "now - 3600000"]
  by (auto simp: recordMessageSent_def checkRateLimit_def Let_def)

text \<open>The amended claim on a window of three sends, the first more than one hour old.\<close>

theorem record_appends_check_prunes_witness:
  "sorted [0, 500000, 3900000 :: int]
   \<and> recordMessageSent 4000000 [0, 500000, 3900000] = [0, 500000, 3900000, 4000000]
   \<and> snd (checkRateLimit 4000000 [0, 500000, 3900000]) = [500000, 3900000]
   \<and> recordMessageSent 4000000 (snd (checkRateLimit 4000000 [0, 500000, 3900000]))
       = [500000, 3900000, 4000000]"
proof -
  have s: "sorted [0, 500000, 3900000 :: int]" by simp
  from record_appends_check_prunes[of "[0, 500000, 3900000]" 4000000] s
  show ?thesis
    by (simp add: recordMessageSent_def checkRateLimit_def Let_def)
qed


subsection \<open>Polling loops\<close>

lemma remaining_sleep: "i < m \<Longrightarrow> s + d + (m - Suc i) * d = s + (m - i) * (d::nat)"
proof -
  assume "i < m"
  then have "m - i = Suc (m - Suc i)" by simp
  then show ?thesis by simp
qed

lemma one_sleep: "i < m \<Longrightarrow> s + d \<le> s + (m - i) * (d::nat)"
  by (cases "m - i") auto

lemma findElementWithRetry_from_stop:
  "\<not> i < m \<Longrightarrow> findElementWithRetry_from f m d i s = \<lparr>result = None, polls = i, slept_ms = s\<rparr>"
  by (subst findElementWithRetry_from.simps) simp

lemma findElementWithRetry_from_hit:
  "i < m \<Longrightarrow> f i = Some el \<Longrightarrow>
   findElementWithRetry_from f m d i s = \<lparr>result = Some el, polls = Suc i, slept_ms = s\<rparr>"
  by (subst findElementWithRetry_from.simps) simp

lemma findElementWithRetry_from_miss:
  "i < m \<Longrightarrow> f i = None \<Longrightarrow>
   findElementWithRetry_from f m d i s = findElementWithRetry_from f m d (Suc i) (s + d)"
  by (subst findElementWithRetry_from.simps) simp

lemma findElementWithRetry_from_bound:
  "polls (findElementWithRetry_from f m d i s) \<le> max m i
   \<and> slept_ms (findElementWithRetry_from f m d i s) \<le> s + (m - i) * d"
proof (induction f m d i s rule: findElementWithRetry_from.induct)
  case (1 f m d i s)
  show ?case
  proof (cases "i < m")
    case False
    then show ?thesis by (simp add: findElementWithRetry_from_stop)
  next
    case True
    show ?thesis
    proof (cases "f i")
      case (Some el)
      with True show ?thesis by (simp add: findElementWithRetry_from_hit)
    next
      case None
      have eq: "findElementWithRetry_from f m d i s = findElementWithRetry_from f m d (Suc i) (s + d)"
        using True None by (simp add: findElementWithRetry_from_miss)
      from "1.IH"[OF True None] True show ?thesis
        unfolding eq by (auto simp: remaining_sleep max_def split: if_splits)
    qed
  qed
qed

lemma wait_file_input_from_stop:
  "\<not> i < 5 \<Longrightarrow> wait_file_input_from p i s = \<lparr>result = Inl FileInputNotFound, polls = i, slept_ms = s\<rparr>"
  by (subst wait_file_input_from.simps) simp

lemma wait_file_input_from_hit:
  "i < 5 \<Longrightarrow> p i \<Longrightarrow> wait_file_input_from p i s = \<lparr>result = Inr (), polls = Suc i, slept_ms = s\<rparr>"
  by (subst wait_file_input_from.simps) simp

lemma wait_file_input_from_miss:
  "i < 5 \<Longrightarrow> \<not> p i \<Longrightarrow> wait_file_input_from p i s = wait_file_input_from p (Suc i) (s + 300)"
  by (subst wait_file_input_from.simps) simp

lemma wait_file_input_from_bound:
  "polls (wait_file_input_from p i s) \<le> max 5 i
   \<and> slept_ms (wait_file_input_from p i s) \<le> s + (5 - i) * 300"
proof (induction p i s rule: wait_file_input_from.induct)
  case (1 p i s)
  show ?case
  proof (cases "i < 5")
    case False
    then show ?thesis by (simp add: wait_file_input_from_stop)
  next
    case True
    show ?thesis
    proof (cases "p i")
      case hit: True
      with True show ?thesis by (simp add: wait_file_input_from_hit)
    next
      case miss: False
      have eq: "wait_file_input_from p i s = wait_file_input_from p (Suc i) (s + 300)"
        using True miss by (simp add: wait_file_input_from_miss)
      from "1.IH"[OF True miss] True remaining_sleep[OF True, of s 300] show ?thesis
        unfolding eq by (auto simp: max_def split: if_splits)
    qed
  qed
qed

lemma wait_preview_from_stop:
  "\<not> i < preview_maxAttempts \<Longrightarrow>
   wait_preview_from p i s = \<lparr>result = Inl PreviewTimeout, polls = i, slept_ms = s\<rparr>"
  by (subst wait_preview_from.simps) simp

lemma wait_preview_from_hit:
  "i < preview_maxAttempts \<Longrightarrow> p i \<Longrightarrow>
   wait_preview_from p i s = \<lparr>result = Inr (), polls = Suc i, slept_ms = s + 300\<rparr>"
  by (subst wait_preview_from.simps) simp

lemma wait_preview_from_miss:
  "i < preview_maxAttempts \<Longrightarrow> \<not> p i \<Longrightarrow>
   wait_preview_from p i s = wait_preview_from p (Suc i) (s + 300)"
  by (subst wait_preview_from.simps) simp

lemma wait_preview_from_bound:
  "polls (wait_preview_from p i s) \<le> max preview_maxAttempts i
   \<and> slept_ms (wait_preview_from p i s) \<le> s + (preview_maxAttempts - i) * 300"
proof (induction p i s rule: wait_preview_from.induct)
  case (1 p i s)
  show ?case
  proof (cases "i < preview_maxAttempts")
    case False
    then show ?thesis by (simp add: wait_preview_from_stop)
  next
    case True
    note rem = remaining_sleep[OF True, of s 300]
    show ?thesis
    proof (cases "p i")
      case hit: True
      with True rem show ?thesis by (simp add: wait_preview_from_hit)
    next
      case miss: False
      have eq: "wait_preview_from p i s = wait_preview_from p (Suc i) (s + 300)"
        using True miss by (simp add: wait_preview_from_miss)
      from "1.IH"[OF True miss] True rem show ?thesis
        unfolding eq by (auto simp: max_def split: if_splits)
    qed
  qed
qed

lemma wait_preview_from_never:
  "\<forall>j. \<not> p j \<Longrightarrow>
   wait_preview_from p i s =
     \<lparr>result = Inl PreviewTimeout, polls = max preview_maxAttempts i,
      slept_ms = s + (preview_maxAttempts - i) * 300\<rparr>"
proof (induction p i s rule: wait_preview_from.induct)
  case (1 p i s)
  show ?case
  proof (cases "i < preview_maxAttempts")
    case False
    then show ?thesis by (simp add: wait_preview_from_stop max_def)
  next
    case True
    from "1.prems" have miss: "\<not> p i" by simp
    have eq: "wait_preview_from p i s = wait_preview_from p (Suc i) (s + 300)"
      using True miss by (simp add: wait_preview_from_miss)
    from "1.IH"[OF True miss "1.prems"] True remaining_sleep[OF True, of s 300] show ?thesis
      unfolding eq by (auto simp: max_def split: if_splits)
  qed
qed

lemma chat_open_loop_stop:
  "\<not> i < MAX_COMPOSER_CHECK_ATTEMPTS \<Longrightarrow>
   chat_open_loop page digits i s = \<lparr>result = Inl ChatOpenFailed, polls = i, slept_ms = s\<rparr>"
  by (subst chat_open_loop.simps) simp

lemma chat_open_loop_accept:
  "i < MAX_COMPOSER_CHECK_ATTEMPTS \<Longrightarrow> composer (page i) \<Longrightarrow>
   isCorrectChat digits (chatTitle (page i)) \<or> i > VALIDATION_SKIP_THRESHOLD \<Longrightarrow>
   chat_open_loop page digits i s =
     \<lparr>result = Inr (), polls = Suc i, slept_ms = s + COMPOSER_CHECK_DELAY_MS\<rparr>"
  by (subst chat_open_loop.simps) simp

lemma chat_open_loop_retry:
  "i < MAX_COMPOSER_CHECK_ATTEMPTS \<Longrightarrow>
   \<not> (composer (page i) \<and>
      (isCorrectChat digits (chatTitle (page i)) \<or> i > VALIDATION_SKIP_THRESHOLD)) \<Longrightarrow>
   chat_open_loop page digits i s =
     chat_open_loop page digits (Suc i) (s + COMPOSER_CHECK_DELAY_MS)"
  by (subst chat_open_loop.simps) auto

lemma chat_open_loop_bound:
  "polls (chat_open_loop page digits i s) \<le> max MAX_COMPOSER_CHECK_ATTEMPTS i
   \<and> slept_ms (chat_open_loop page digits i s)
       \<le> s + (MAX_COMPOSER_CHECK_ATTEMPTS - i) * COMPOSER_CHECK_DELAY_MS"
proof (induction page digits i s rule: chat_open_loop.induct)
  case (1 page digits i s)
  let ?accept = "composer (page i) \<and>
    (isCorrectChat digits (chatTitle (page i)) \<or> i > VALIDATION_SKIP_THRESHOLD)"
  show ?case
  proof (cases "i < MAX_COMPOSER_CHECK_ATTEMPTS")
    case False
    then show ?thesis by (simp add: chat_open_loop_stop)
  next
    case True
    note rem = remaining_sleep[OF True, of s COMPOSER_CHECK_DELAY_MS]
    show ?thesis
    proof (cases ?accept)
      case acc: True
      with True one_sleep[OF True, of s COMPOSER_CHECK_DELAY_MS] show ?thesis
        by (simp add: chat_open_loop_accept)
    next
      case rej: False
      have ih: "polls (chat_open_loop page digits (Suc i) (s + COMPOSER_CHECK_DELAY_MS))
            \<le> max MAX_COMPOSER_CHECK_ATTEMPTS (Suc i)
          \<and> slept_ms (chat_open_loop page digits (Suc i) (s + COMPOSER_CHECK_DELAY_MS))
            \<le> s + COMPOSER_CHECK_DELAY_MS
               + (MAX_COMPOSER_CHECK_ATTEMPTS - Suc i) * COMPOSER_CHECK_DELAY_MS"
        using "1.IH" True rej by blast
      have eq: "chat_open_loop page digits i s
          = chat_open_loop page digits (Suc i) (s + COMPOSER_CHECK_DELAY_MS)"
        using True rej by (rule chat_open_loop_retry)
      from ih True rem show ?thesis
        unfolding eq by (auto simp: max_def split: if_splits)
    qed
  qed
qed

lemma chat_open_loop_never:
  "\<forall>j. \<not> composer (page j) \<Longrightarrow>
   chat_open_loop page digits i s =
     \<lparr>result = Inl ChatOpenFailed, polls = max MAX_COMPOSER_CHECK_ATTEMPTS i,
      slept_ms = s + (MAX_COMPOSER_CHECK_ATTEMPTS - i) * COMPOSER_CHECK_DELAY_MS\<rparr>"
proof (induction page digits i s rule: chat_open_loop.induct)
  case (1 page digits i s)
  show ?case
  proof (cases "i < MAX_COMPOSER_CHECK_ATTEMPTS")
    case False
    then show ?thesis by (simp add: chat_open_loop_stop max_def)
  next
    case True
    from "1.prems" have miss: "\<not> composer (page i)" by simp
    then have rej: "\<not> (composer (page i) \<and>
      (isCorrectChat digits (chatTitle (page i)) \<or> i > VALIDATION_SKIP_THRESHOLD))" by simp
    note rem = remaining_sleep[OF True, of s COMPOSER_CHECK_DELAY_MS]
    note ih = "1.IH"(2)[OF True miss "1.prems"]
    have eq: "chat_open_loop page digits i s
        = chat_open_loop page digits (Suc i) (s + COMPOSER_CHECK_DELAY_MS)"
      using True rej by (rule chat_open_loop_retry)
    from ih True rem show ?thesis
      unfolding eq by (auto simp: max_def split: if_splits)
  qed
qed


text \<open>
  Property X1. The validation loop succeeds exactly when, at some attempt below
  \<open>MAX_COMPOSER_CHECK_ATTEMPTS\<close>, the composer is there and either \<open>isCorrectChat\<close>
  holds of the title or the attempt is past \<open>VALIDATION_SKIP_THRESHOLD\<close>; otherwise it
  fails with \<open>ChatOpenFailed\<close>.
\<close>

theorem chat_open_loop_result:
  "result (chat_open_loop page digits i s) =
     (if \<exists>j. i \<le> j \<and> j < MAX_COMPOSER_CHECK_ATTEMPTS \<and> composer (page j) \<and>
            (isCorrectChat digits (chatTitle (page j)) \<or> j > VALIDATION_SKIP_THRESHOLD)
      then Inr () else Inl ChatOpenFailed)"
proof (induction page digits i s rule: chat_open_loop.induct)
  case (1 page digits i s)
  let ?acc = "\<lambda>j. composer (page j) \<and>
    (isCorrectChat digits (chatTitle (page j)) \<or> j > VALIDATION_SKIP_THRESHOLD)"
  show ?case
  proof (cases "i < MAX_COMPOSER_CHECK_ATTEMPTS")
    case False
    then show ?thesis by (auto simp: chat_open_loop_stop)
  next
    case True
    show ?thesis
    proof (cases "?acc i")
      case acc: True
      with True show ?thesis by (auto simp: chat_open_loop_accept)
    next
      case rej: False
      have eq: "chat_open_loop page digits i s
          = chat_open_loop page digits (Suc i) (s + COMPOSER_CHECK_DELAY_MS)"
        using True rej by (rule chat_open_loop_retry)
      have ih: "result (chat_open_loop page digits (Suc i) (s + COMPOSER_CHECK_DELAY_MS)) =
        (if \<exists>j. Suc i \<le> j \<and> j < MAX_COMPOSER_CHECK_ATTEMPTS \<and> ?acc j
         then Inr () else Inl ChatOpenFailed)"
        using "1.IH" True rej by blast
      have "(\<exists>j. i \<le> j \<and> j < MAX_COMPOSER_CHECK_ATTEMPTS \<and> ?acc j)
          = (\<exists>j. Suc i \<le> j \<and> j < MAX_COMPOSER_CHECK_ATTEMPTS \<and> ?acc j)"
        using rej by (metis Suc_leI le_neq_implies_less Suc_leD)
      then show ?thesis unfolding eq ih by simp
    qed
  qed
qed


subsection \<open>Chat-open validation and the bounds of the waits\<close>

text \<open>
  Claim C4 says that a composer found at attempt \<open>i\<close> leads to success exactly when the
  title shares an 8-digit suffix with the target or \<open>i\<close> has exceeded the skip threshold.
  The code accepts more: \<^verbatim>\<open>digits.includes(titleDigits.slice(-8))\<close> is true whenever the
  title holds no digit, since every string includes the empty one. For the target
  5511999990001 and a chat titled Maria, the loop returns success at its first poll
  (attempt 0, threshold 15), and so does \<open>openChatBySearch\<close>; the fallback after the
  threshold, which the source documents as the way such titles are accepted, is never
  reached.
\<close>

theorem digitless_title_accepted_at_first_poll:
  "chat_open_loop saved_contact ''5511999990001'' 0 0
     = \<lparr>result = Inr (), polls = 1, slept_ms = 300\<rparr>
   \<and> openChatBySearch ''5511999990001'' True [''Maria''] saved_contact = Inr ()
   \<and> only_digits (chatTitle (saved_contact 0)) = []
   \<and> \<not> 0 > VALIDATION_SKIP_THRESHOLD"
proof -
  have t: "only_digits (chatTitle (saved_contact 0)) = []"
    by (simp add: saved_contact_def only_digits_def is_digit_def)
  have ok: "isCorrectChat ''5511999990001'' (chatTitle (saved_contact 0))"
    unfolding isCorrectChat_def Let_def t
    by (simp add: slice_last_def)
  have c: "composer (saved_contact 0)" by (simp add: saved_contact_def)
  have l: "chat_open_loop saved_contact ''5511999990001'' 0 0
     = \<lparr>result = Inr (), polls = 1, slept_ms = 300\<rparr>"
    using chat_open_loop_accept[of 0 saved_contact "''5511999990001''" 0] c ok
    by (simp add: MAX_COMPOSER_CHECK_ATTEMPTS_def COMPOSER_CHECK_DELAY_MS_def)
  have d: "only_digits (keep_digits_plus ''5511999990001'') = ''5511999990001''"
    by (simp add: only_digits_def keep_digits_plus_def is_digit_def)
  have "openChatBySearch ''5511999990001'' True [''Maria''] saved_contact = Inr ()"
    unfolding openChatBySearch_def Let_def d l by simp
  with l t show ?thesis by (simp add: VALIDATION_SKIP_THRESHOLD_def)
qed

text \<open>
  Claim C5, as stated, fails for the media-preview wait: when the send button of the
  preview never appears the wait makes 60 polls and sleeps 18000 ms, more than 50 polls
  and more than 15000 ms.
\<close>

theorem preview_wait_counterexample:
  "result (wait_preview_from never_there 0 0) = Inl PreviewTimeout
   \<and> \<not> polls (wait_preview_from never_there 0 0) \<le> 50
   \<and> \<not> slept_ms (wait_preview_from never_there 0 0) \<le> 15000"
proof -
  have "\<forall>j. \<not> never_there j" by (simp add: never_there_def)
  from wait_preview_from_never[OF this, of 0 0] show ?thesis
    by (simp add: preview_maxAttempts_def)
qed

text \<open>
  Claim C5, amended. Every DOM-polling wait makes at most a fixed number of polls at a
  fixed interval and then returns or fails with its own error: \<open>findElementWithRetry\<close>
  at most \<open>maxAttempts\<close> polls and \<open>maxAttempts * delayMs\<close> ms, the file-input wait 5
  polls and 1500 ms, the chat-open validation loop 20 polls and 6000 ms, the
  media-preview wait 60 polls and 18000 ms; a composer that never appears gives
  \<open>ChatOpenFailed\<close> after exactly 20 polls, a preview that never appears
  \<open>PreviewTimeout\<close> after exactly 60.
\<close>

theorem polling_bounded:
  "polls (findElementWithRetry findElement maxAttempts delayMs) \<le> maxAttempts
   \<and> slept_ms (findElementWithRetry findElement maxAttempts delayMs) \<le> maxAttempts * delayMs
   \<and> polls (wait_file_input_from input 0 0) \<le> 5
   \<and> slept_ms (wait_file_input_from input 0 0) \<le> 1500
   \<and> polls (chat_open_loop page digits 0 0) \<le> 20
   \<and> slept_ms (chat_open_loop page digits 0 0) \<le> 6000
   \<and> polls (wait_preview_from sendBtn 0 0) \<le> 60
   \<and> slept_ms (wait_preview_from sendBtn 0 0) \<le> 18000
   \<and> ((\<forall>j. \<not> composer (page j)) \<longrightarrow>
        chat_open_loop page digits 0 0
          = \<lparr>result = Inl ChatOpenFailed, polls = 20, slept_ms = 6000\<rparr>)
   \<and> ((\<forall>j. \<not> sendBtn j) \<longrightarrow>
        wait_preview_from sendBtn 0 0
          = \<lparr>result = Inl PreviewTimeout, polls = 60, slept_ms = 18000\<rparr>)"
proof -
  have a: "polls (findElementWithRetry findElement maxAttempts delayMs) \<le> maxAttempts
     \<and> slept_ms (findElementWithRetry findElement maxAttempts delayMs) \<le> maxAttempts * delayMs"
    using findElementWithRetry_from_bound[of findElement maxAttempts delayMs 0 0]
    by (simp add: findElementWithRetry_def)
  have b: "polls (wait_file_input_from input 0 0) \<le> 5
     \<and> slept_ms (wait_file_input_from input 0 0) \<le> 1500"
    using wait_file_input_from_bound[of input 0 0] by simp
  have c: "polls (chat_open_loop page digits 0 0) \<le> 20
     \<and> slept_ms (chat_open_loop page digits 0 0) \<le> 6000"
    using chat_open_loop_bound[of page digits 0 0]
    by (simp add: MAX_COMPOSER_CHECK_ATTEMPTS_def COMPOSER_CHECK_DELAY_MS_def)
  have d: "polls (wait_preview_from sendBtn 0 0) \<le> 60
     \<and> slept_ms (wait_preview_from sendBtn 0 0) \<le> 18000"
    using wait_preview_from_bound[of sendBtn 0 0] by (simp add: preview_maxAttempts_def)
  have e: "(\<forall>j. \<not> composer (page j)) \<longrightarrow>
        chat_open_loop page digits 0 0
          = \<lparr>result = Inl ChatOpenFailed, polls = 20, slept_ms = 6000\<rparr>"
    using chat_open_loop_never[of page digits 0 0]
    by (simp add: MAX_COMPOSER_CHECK_ATTEMPTS_def COMPOSER_CHECK_DELAY_MS_def)
  have f: "(\<forall>j. \<not> sendBtn j) \<longrightarrow>
        wait_preview_from sendBtn 0 0
          = \<lparr>result = Inl PreviewTimeout, polls = 60, slept_ms = 18000\<rparr>"
    using wait_preview_from_never[of sendBtn 0 0] by (simp add: preview_maxAttempts_def)
  from a b c d e f show ?thesis by blast
qed

text \<open>The amended claim on pages where the awaited element never appears.\<close>

theorem polling_bounded_witness:
  "wait_preview_from never_there 0 0
     = \<lparr>result = Inl PreviewTimeout, polls = 60, slept_ms = 18000\<rparr>
   \<and> chat_open_loop no_chat ''5511999990001'' 0 0
     = \<lparr>result = Inl ChatOpenFailed, polls = 20, slept_ms = 6000\<rparr>
   \<and> slept_ms (findElementWithRetry (\<lambda>i. if i = 2 then Some () else None) 10 300) \<le> 3000"
proof -
  have n: "\<forall>j. \<not> never_there j" by (simp add: never_there_def)
  have c: "\<forall>j. \<not> composer (no_chat j)" by (simp add: no_chat_def)
  from polling_bounded[of "\<lambda>i. if i = 2 then Some () else None" 10 300 never_there
      no_chat "''5511999990001''" never_there]
    n c
  show ?thesis by auto
qed


subsection \<open>Runs of the campaign\<close>

lemmas run_defs = wake_def loop_head_def after_pause_def begin_contact_def finish_def
  end_contact_def click_pause_def click_stop_def

lemma exec_append: "exec contact (xs @ ys) st = exec contact ys (exec contact xs st)"
  by (induction xs arbitrary: st) simp_all

lemma exec_replicate_add:
  "exec contact (replicate (a + b) e) st = exec contact (replicate b e) (exec contact (replicate a e) st)"
  by (simp add: replicate_add exec_append)




lemma upt_last_index: "i < n \<Longrightarrow> \<not> Suc i < n \<Longrightarrow> [0 ..< i] @ [i] = [0 ..< n]"
proof -
  assume "i < n" "\<not> Suc i < n"
  then have "n = Suc i" by simp
  then show ?thesis by simp
qed

lemma step_inv: "run_inv st \<Longrightarrow> run_inv (step contact e st)"
  by (cases e; cases "pc st")
     (auto simp: run_inv_def in_loop_def finished_def run_defs upt_last_index split: if_splits)

lemma exec_inv: "run_inv st \<Longrightarrow> run_inv (exec contact evs st)"
  by (induction evs arbitrary: st) (simp_all add: step_inv)

lemma start_inv: "run_inv (executeDomCampaign es m st0)"
  by (simp add: run_inv_def in_loop_def executeDomCampaign_def)


lemma start_wake:
  "es \<noteq> [] \<Longrightarrow> wake contact (executeDomCampaign es m st0) = undisturbed_at es m contact 0"
  by (simp add: executeDomCampaign_def undisturbed_at_def run_defs)

lemma next_contact:
  "i + 1 < length es \<Longrightarrow>
   exec contact [Wake, Wake, Wake] (undisturbed_at es m contact i) = undisturbed_at es m contact (i + 1)"
  by (simp add: undisturbed_at_def run_defs)

lemma last_contact:
  "length es = i + 1 \<Longrightarrow>
   exec contact [Wake, Wake, Wake] (undisturbed_at es m contact i) = completed_run es m contact"
  by (simp add: undisturbed_at_def completed_run_def run_defs)

lemma three_more: "replicate (3 + k) Wake = [Wake, Wake, Wake] @ replicate k Wake"
  by (simp add: numeral_3_eq_3)

lemma remaining_contacts:
  "i + k = length es \<Longrightarrow> 0 < k \<Longrightarrow>
   exec contact (replicate (3 * k) Wake) (undisturbed_at es m contact i) = completed_run es m contact"
proof (induction k arbitrary: i)
  case 0
  then show ?case by simp
next
  case (Suc k)
  have split: "replicate (3 * Suc k) Wake = [Wake, Wake, Wake] @ replicate (3 * k) Wake"
    using three_more[of "3 * k"] by (simp add: add.commute)
  show ?case
  proof (cases "k = 0")
    case True
    with Suc.prems have len: "length es = i + 1" by simp
    have "replicate (3 * Suc k) Wake = [Wake, Wake, Wake]"
      using True by (simp add: numeral_3_eq_3)
    then show ?thesis by (simp only: last_contact[OF len])
  next
    case False
    with Suc.prems have lt: "i + 1 < length es" and rest: "(i + 1) + k = length es" by simp_all
    have "exec contact (replicate (3 * Suc k) Wake) (undisturbed_at es m contact i)
        = exec contact (replicate (3 * k) Wake) (undisturbed_at es m contact (i + 1))"
      unfolding split exec_append next_contact[OF lt] ..
    also have "\<dots> = completed_run es m contact"
      using Suc.IH[OF rest] False by simp
    finally show ?thesis .
  qed
qed

lemma empty_campaign:
  "exec contact [Wake, Wake] (executeDomCampaign [] m st0) = completed_run [] m contact"
  by (simp add: executeDomCampaign_def completed_run_def run_defs)

lemma completed_wake: "wake contact (completed_run es m contact) = completed_run es m contact"
  by (simp add: completed_run_def wake_def)

lemma undisturbed_run:
  "exec contact (replicate (3 * length es + 2) Wake) (executeDomCampaign es m st0)
     = completed_run es m contact"
proof (cases "es = []")
  case True
  have "replicate 2 Wake = [Wake, Wake]" by (simp add: numeral_2_eq_2)
  with True show ?thesis by (simp add: empty_campaign del: exec.simps)
next
  case False
  then have pos: "0 < length es" by simp
  have split: "replicate (3 * length es + 2) Wake
      = Wake # (replicate (3 * length es) Wake @ [Wake])"
    by (simp add: replicate_append_same)
  have mid: "exec contact (replicate (3 * length es) Wake) (undisturbed_at es m contact 0)
      = completed_run es m contact"
    using remaining_contacts[of 0 "length es" es contact m] pos by simp
  show ?thesis
    unfolding split by (simp add: exec_append start_wake[OF False] mid completed_wake)
qed


lemma entries_step: "entries (step contact e st) = entries st"
  by (cases e; cases "pc st") (simp_all add: run_defs)

lemma entries_exec: "entries (exec contact evs st) = entries st"
  by (induction evs arbitrary: st) (simp_all add: entries_step)




lemma inv_done:
  "run_inv st \<Longrightarrow> pc st = Done \<Longrightarrow> \<not> abort (flags st) \<Longrightarrow>
   attempted st = [0 ..< length (entries st)] \<and> map fst (outcomes st) = [0 ..< length (entries st)]
   \<and> report st = Some Completed"
  by (auto simp: run_inv_def finished_def)

lemma contact_ends:
  "pc st = InContact \<Longrightarrow>
   cursor (flags (step contact Wake st)) = idx st + 1
   \<and> stored (step contact Wake st)
       = Some \<lparr>s_entries = entries st, s_message = msg st, s_cursor = idx st + 1,
               s_status = (if abort (flags st) then StatusAborted else StatusRunning)\<rparr>
   \<and> outcomes (step contact Wake st) = outcomes st @ [(idx st, contact (idx st))]
   \<and> pc (step contact Wake st) = SavingProgress
   \<and> running (flags (step contact Wake st)) = running (flags st)"
  by (simp add: wake_def end_contact_def)

lemma proceeds:
  "pc st = InContact \<Longrightarrow> \<not> abort (flags st) \<Longrightarrow> \<not> paused (flags st) \<Longrightarrow>
   idx st + 1 < length (entries st) \<Longrightarrow>
   pc (exec contact [Wake, Wake, Wake] st) = InContact
   \<and> idx (exec contact [Wake, Wake, Wake] st) = idx st + 1
   \<and> attempted (exec contact [Wake, Wake, Wake] st) = attempted st @ [idx st + 1]"
  by (simp add: run_defs)








text \<open>
  Property X2. While \<^verbatim>\<open>campRun.running\<close> is set, a click on the start button ends in an
  error, whatever the inputs.
\<close>

theorem start_rejected_while_running:
  "running (flags st) \<Longrightarrow> \<exists>e. campStartBtn_click st raw text hasMedia sched now = Inl e"
  by (simp add: campStartBtn_click_def)

text \<open>The property on the sample run inside its first contact.\<close>

theorem start_rejected_while_running_witness:
  "running (flags in_first_contact)
   \<and> (\<exists>e. campStartBtn_click in_first_contact ''+5511999990009'' ''oi'' False SendNow 0 = Inl e)"
proof -
  have r: "running (flags in_first_contact)"
    by (simp add: in_first_contact_def executeDomCampaign_def idle_def three_contacts_def run_defs)
  from start_rejected_while_running[OF r] r show ?thesis by blast
qed

text \<open>
  Property X3. What the message listener does is the same in every state of the panel's
  runner: it cannot see whether a run is active.
\<close>

theorem onMessage_ignores_run: "onMessage contact mounted st m = onMessage contact mounted st' m"
  by (simp add: onMessage_def)





subsection \<open>A stopped run returns\<close>









subsection \<open>Continue on failure, pause and abort, single run\<close>

lemma in_second_contact_facts:
  "pc in_second_contact = InContact" "idx in_second_contact = 1"
  "\<not> abort (flags in_second_contact)" "\<not> paused (flags in_second_contact)"
  "running (flags in_second_contact)" "entries in_second_contact = three_contacts"
  "attempted in_second_contact = [0, 1]" "cursor (flags in_second_contact) = 1"
  by (simp_all add: in_second_contact_def sample_start_def executeDomCampaign_def idle_def
      three_contacts_def run_defs)


text \<open>
  Claim C1. In a DOM campaign run the \<^verbatim>\<open>try\<close> block of a contact at index \<open>idx\<close> may
  complete or throw; either way the runner catches the error, sets the cursor to
  \<open>idx + 1\<close>, writes entries, message, cursor and status to storage and stays running.
  Unless aborted (and once resumed, if paused) it then enters the contact at
  \<open>idx + 1\<close>. A failure never ends the run: whatever the clicks, a run that returns
  without the abort flag has entered every contact, in order; and a run that meets no
  click returns after \<open>3 * length es + 2\<close> awaits with every contact entered, whatever
  each \<^verbatim>\<open>try\<close> block did.
\<close>

theorem continue_on_failure:
  "(pc st = InContact \<longrightarrow>
      cursor (flags (step contact Wake st)) = idx st + 1
      \<and> stored (step contact Wake st)
          = Some \<lparr>s_entries = entries st, s_message = msg st, s_cursor = idx st + 1,
                  s_status = (if abort (flags st) then StatusAborted else StatusRunning)\<rparr>
      \<and> outcomes (step contact Wake st) = outcomes st @ [(idx st, contact (idx st))]
      \<and> pc (step contact Wake st) = SavingProgress
      \<and> running (flags (step contact Wake st)) = running (flags st))
   \<and> (pc st = InContact \<and> \<not> abort (flags st) \<and> \<not> paused (flags st)
        \<and> idx st + 1 < length (entries st) \<longrightarrow>
      pc (exec contact [Wake, Wake, Wake] st) = InContact
      \<and> idx (exec contact [Wake, Wake, Wake] st) = idx st + 1
      \<and> attempted (exec contact [Wake, Wake, Wake] st) = attempted st @ [idx st + 1])
   \<and> (pc (exec contact evs (executeDomCampaign es m st0)) = Done
        \<and> \<not> abort (flags (exec contact evs (executeDomCampaign es m st0))) \<longrightarrow>
      attempted (exec contact evs (executeDomCampaign es m st0)) = [0 ..< length es]
      \<and> map fst (outcomes (exec contact evs (executeDomCampaign es m st0))) = [0 ..< length es]
      \<and> report (exec contact evs (executeDomCampaign es m st0)) = Some Completed)
   \<and> exec contact (replicate (3 * length es + 2) Wake) (executeDomCampaign es m st0)
       = completed_run es m contact"
proof (intro conjI impI)
  let ?r = "exec contact evs (executeDomCampaign es m st0)"
  assume d: "pc ?r = Done \<and> \<not> abort (flags ?r)"
  have inv: "run_inv ?r" by (rule exec_inv) (rule start_inv)
  have "entries ?r = es" by (simp add: entries_exec executeDomCampaign_def)
  with inv_done[OF inv] d
  show "attempted ?r = [0 ..< length es]" "map fst (outcomes ?r) = [0 ..< length es]"
    "report ?r = Some Completed" by simp_all
qed (use contact_ends proceeds undisturbed_run in blast)+

text \<open>
  Three contacts, the second of which cannot be opened: its failure moves the cursor to
  2, the third contact is entered, and the run completes; so does a run in which every
  contact fails.
\<close>

theorem continue_on_failure_witness:
  "second_fails (idx in_second_contact) = Some ChatOpenFailed
   \<and> cursor (flags (step second_fails Wake in_second_contact)) = 2
   \<and> pc (step second_fails Wake in_second_contact) = SavingProgress
   \<and> pc (exec second_fails [Wake, Wake, Wake] in_second_contact) = InContact
   \<and> attempted (exec second_fails [Wake, Wake, Wake] in_second_contact) = [0, 1, 2]
   \<and> outcomes (exec second_fails (replicate (3 * length three_contacts + 2) Wake) sample_start)
       = [(0, None), (1, Some ChatOpenFailed), (2, None)]
   \<and> report (exec all_fail (replicate (3 * length three_contacts + 2) Wake) sample_start)
       = Some Completed
   \<and> attempted (exec all_fail (replicate (3 * length three_contacts + 2) Wake) sample_start)
       = [0, 1, 2]"
proof -
  have len: "length three_contacts = 3" by (simp add: three_contacts_def)
  have upt: "[0 ..< 3] = [0, 1, 2]" by (simp add: upt_rec)
  from continue_on_failure[of in_second_contact second_fails
      "replicate (3 * length three_contacts + 2) Wake" three_contacts "''oi''" idle]
    continue_on_failure[of in_second_contact all_fail
      "replicate (3 * length three_contacts + 2) Wake" three_contacts "''oi''" idle]
    in_second_contact_facts
  show ?thesis
    by (simp add: len upt completed_run_def second_fails_def sample_start_def)
qed



text \<open>
  Claim C2 says that every path that starts a run rejects the start while a run is
  active. The start button does: with \<^verbatim>\<open>campRun.running\<close> set it answers
  \<open>AlreadyRunning\<close>. The message listener does not: \<^verbatim>\<open>executeDomCampaignDirectly\<close> lives
  outside the panel, neither reads nor sets \<^verbatim>\<open>campRun.running\<close>, and processes its
  contacts while the panel's run is inside its first contact, for a scheduled campaign
  and for team messages alike.
\<close>

theorem scheduled_run_not_rejected:
  "running (flags in_first_contact)
   \<and> campStartBtn_click in_first_contact ''+5511999990009'' ''oi'' False SendNow 0
       = Inl AlreadyRunning
   \<and> onMessage all_sent True in_first_contact
        (EXECUTE_SCHEDULED_CAMPAIGN [\<lparr>number = ''+5511999990009'', name = ''Zed''\<rparr>] ''oi'')
       = ([(0, None)], NoResponse)
   \<and> onMessage all_sent True in_first_contact
        (SEND_TEAM_MESSAGES [(''Zed'', ''5511999990009'')] ''oi'')
       = ([(0, None)], ResponseOk 1)"
proof -
  have r: "running (flags in_first_contact)"
    by (simp add: in_first_contact_def executeDomCampaign_def idle_def three_contacts_def run_defs)
  have p: "parseCampaignLines ''+5511999990009'' \<noteq> []"
    by code_simp
  have t: "trim ''oi'' \<noteq> []"
    by code_simp
  have u: "campStartBtn_click in_first_contact ''+5511999990009'' ''oi'' False SendNow 0
      = Inl AlreadyRunning"
    using r p t by (simp add: campStartBtn_click_def)
  from r u show ?thesis
    by (simp add: onMessage_def executeDomCampaignDirectly_def all_sent_def)
qed


end
